theory Spec2Isabelle
  imports Main "HOL-Library.AList"
begin

section \<open>Data model of nano-cache\<close>

text \<open>
  The development embeds \<^verbatim>\<open>src/nano-cache.ts\<close> (the build input) and
  \<^verbatim>\<open>src/nano-cache.js\<close>. The two files agree on every method except \<^verbatim>\<open>has\<close> and the
  rejection handler of \<^verbatim>\<open>getOrSet\<close>; those two are embedded once per file, with the suffixes
  \<open>_ts\<close> and \<open>_js\<close>.

  Conventions of the embedding:
  \<^item> JavaScript numbers are IEEE doubles. Timestamps, durations and counters are integers
    below \<open>2^53\<close> in magnitude, and so are their sums and differences, which a double
    holds exactly: there \<open>int\<close> arithmetic is what the code computes. The eviction score
    multiplies a timestamp by a million and leaves that range; it is computed with the
    rounding of doubles (\<open>dbl\<close>).
  \<^item> Every method takes the value \<open>now\<close> that \<^verbatim>\<open>Date.now()\<close> returns while it runs; the
    calls of \<^verbatim>\<open>Date.now()\<close> inside one synchronous method read the same instant.
  \<^item> A stored value is \<open>Undefined\<close> or \<open>Defined x\<close>; a read that finds nothing returns
    \<open>Undefined\<close>, exactly as the code returns \<^verbatim>\<open>undefined\<close>.
  \<^item> \<^verbatim>\<open>_map\<close> is a JavaScript \<^verbatim>\<open>Map\<close>: an association list in insertion order, where
    \<open>AList.update\<close> is \<^verbatim>\<open>Map.set\<close> (in place for a known key, appended for a new one) and
    \<open>AList.delete\<close> is \<^verbatim>\<open>Map.delete\<close>.
  \<^item> The user's callbacks (\<^verbatim>\<open>disposeValue\<close>, event observers) are opaque: each call is
    appended to a trace, and a callback does not call back into the cache.
  \<^item> A call of a loader either returns a promise, which settles later as a step of its
    own, or throws before it returns anything. The loader does not call back into the
    cache before it returns.
  \<^item> \<^verbatim>\<open>_clone\<close> returns a value equal to its argument, so it is the identity here.
  \<^item> The interval timer is left out: a reaper tick is a \<^verbatim>\<open>_cleanup\<close> step at any time.
    The read-only helpers (\<^verbatim>\<open>keys\<close>, \<^verbatim>\<open>values\<close>, \<^verbatim>\<open>entries\<close>, \<^verbatim>\<open>stats\<close>) are left out too.
\<close>

datatype 'v jsval = Undefined | Defined 'v

record 'v entry =
  e_v :: "'v jsval"
  e_e :: int
  e_t :: int
  e_a :: int

record opts =
  defaultTTL :: int
  maxSize :: int
  checkPeriod :: int
  allowStale :: bool
  staleWhileRevalidate :: int
  staleIfError :: int
  useClone :: bool
  disposeValue :: bool

text \<open>\<^verbatim>\<open>NanoCache.DEFAULTS\<close>; \<open>disposeValue\<close> records whether the option is a function.\<close>

definition DEFAULTS :: opts where
  "DEFAULTS = \<lparr>defaultTTL = 0, maxSize = 0, checkPeriod = 10000, allowStale = False,
     staleWhileRevalidate = 0, staleIfError = 0, useClone = False, disposeValue = False\<rparr>"

text \<open>
  The calls the cache makes to user code: \<open>DisposeCall v key reason\<close> is
  \<^verbatim>\<open>opts.disposeValue(entry.v, key, reason)\<close>, and \<open>Callback cb key v reason\<close> is the observer
  \<open>cb\<close> called with the payload \<^verbatim>\<open>{key, value, reason}\<close>.
\<close>

datatype ('k, 'v) effect =
    DisposeCall "'v jsval" 'k string
  | Callback nat 'k "'v jsval" string

datatype ('v, 'x) outcome = Fulfilled "'v jsval" | Rejected 'x

text \<open>
  What the call \<^verbatim>\<open>loader()\<close> does: it returns a promise, or it throws \<open>err\<close>. Returning
  a value without a \<^verbatim>\<open>then\<close> method makes \<^verbatim>\<open>loader().then\<close> throw a TypeError, which is
  \<open>Throws\<close> as well.
\<close>

datatype 'x loader = Returns | Throws 'x

text \<open>
  What the promise returned by \<^verbatim>\<open>getOrSet\<close> resolves with: a value found in the store, or
  the in-flight promise with the given number. \<open>Failed err\<close> is the promise rejected at
  once, when the body of \<^verbatim>\<open>getOrSet\<close> throws.
\<close>

datatype ('v, 'x) handle = Ready "'v jsval" | Awaiting nat | Failed 'x

text \<open>
  The cache object. \<open>loads\<close> lists the keys of all loader invocations, oldest first.
  \<open>calls\<close> lists the promises that loaders returned, oldest first: promise \<open>p\<close> is the
  entry number \<open>p\<close>, with the key and the ttl its handlers close over. \<open>settled\<close> holds
  the outcome of each settled in-flight promise.
\<close>

record ('k, 'v, 'x) cache =
  store :: "('k \<times> 'v entry) list"
  events :: "(string \<times> nat list) list"
  pending :: "('k \<times> nat) list"
  loads :: "'k list"
  calls :: "('k \<times> int) list"
  settled :: "(nat \<times> ('v, 'x) outcome) list"
  trace :: "('k, 'v) effect list"

definition new :: "('k, 'v, 'x) cache" where
  "new = \<lparr>store = [], events = [(''expire'', []), (''evict'', [])], pending = [],
     loads = [], calls = [], settled = [], trace = []\<rparr>"


section \<open>Hooks and events\<close>

definition clone :: "'v jsval \<Rightarrow> 'v jsval" where
  "clone val = val"

definition touch :: "int \<Rightarrow> 'v entry \<Rightarrow> 'v entry" where
  "touch now en = en\<lparr>e_t := now, e_a := e_a en + 1\<rparr>"

definition disposeEntry ::
  "opts \<Rightarrow> 'k \<Rightarrow> 'v entry \<Rightarrow> string \<Rightarrow> ('k, 'v, 'x) cache \<Rightarrow> ('k, 'v, 'x) cache" where
  "disposeEntry cfg key en reason st =
     (if disposeValue cfg then st\<lparr>trace := trace st @ [DisposeCall (e_v en) key reason]\<rparr>
      else st)"

definition emit ::
  "string \<Rightarrow> 'k \<Rightarrow> 'v jsval \<Rightarrow> string \<Rightarrow> ('k, 'v, 'x) cache \<Rightarrow> ('k, 'v, 'x) cache" where
  "emit event key val reason st =
     (let cbs = (case map_of (events st) event of None \<Rightarrow> [] | Some l \<Rightarrow> l)
      in st\<lparr>trace := trace st @ map (\<lambda>cb. Callback cb key val reason) cbs\<rparr>)"

definition on :: "string \<Rightarrow> nat \<Rightarrow> ('k, 'v, 'x) cache \<Rightarrow> ('k, 'v, 'x) cache" where
  "on event cb st =
     (case map_of (events st) event of
        None \<Rightarrow> st
      | Some l \<Rightarrow> st\<lparr>events := AList.update event (l @ [cb]) (events st)\<rparr>)"

definition off :: "string \<Rightarrow> nat \<Rightarrow> ('k, 'v, 'x) cache \<Rightarrow> ('k, 'v, 'x) cache" where
  "off event cb st =
     (case map_of (events st) event of
        None \<Rightarrow> st
      | Some l \<Rightarrow> st\<lparr>events := AList.update event (remove1 cb l) (events st)\<rparr>)"

section \<open>Eviction and the reaper sweep\<close>

text \<open>
  Rounding an integer to the nearest double, ties to even: a double holds 53 significant
  bits, so the \<open>excess n\<close> low bits of a magnitude \<open>n\<close> are rounded away. (Magnitudes stay
  far below the largest double.)
\<close>

function excess :: "int \<Rightarrow> nat" where
  "excess n = (if n < 2 ^ 53 then 0 else Suc (excess (n div 2)))"
  by pat_completeness auto
termination
proof (relation "measure nat")
  show "wf (measure nat)" by simp
next
  fix n :: int
  assume "\<not> n < 2 ^ 53"
  then have "0 < n" by (cases "n \<le> 0") simp_all
  then show "(n div 2, n) \<in> measure nat" by simp
qed

declare excess.simps [simp del]

definition dbl :: "int \<Rightarrow> int" where
  "dbl x =
     (let n = \<bar>x\<bar>;
          k = excess n;
          q = n div 2 ^ k;
          r = n mod 2 ^ k;
          q' = (if 2 ^ k < 2 * r \<or> (2 * r = 2 ^ k \<and> odd q) then q + 1 else q)
      in sgn x * (q' * 2 ^ k))"

text \<open>
  The scan of \<^verbatim>\<open>_evictLRU\<close>: \<open>oldestTime = None\<close> is the initial \<^verbatim>\<open>Infinity\<close>, below which
  every score lies. The score \<^verbatim>\<open>e.t * 1_000_000 - e.a\<close> is two operations on doubles, each
  rounded.
\<close>

definition score :: "'v entry \<Rightarrow> int" where
  "score en = dbl (dbl (e_t en * 1000000) - e_a en)"

fun evict_scan ::
  "('k \<times> 'v entry) list \<Rightarrow> 'k option \<Rightarrow> int option \<Rightarrow> 'k option" where
  "evict_scan [] oldestKey oldestTime = oldestKey"
| "evict_scan ((k, en) # rest) oldestKey oldestTime =
     (if (case oldestTime of None \<Rightarrow> True | Some ot \<Rightarrow> score en < ot)
      then evict_scan rest (Some k) (Some (score en))
      else evict_scan rest oldestKey oldestTime)"

definition evictLRU :: "opts \<Rightarrow> ('k, 'v, 'x) cache \<Rightarrow> ('k, 'v, 'x) cache" where
  "evictLRU cfg st =
     (case evict_scan (store st) None None of
        None \<Rightarrow> st
      | Some oldestKey \<Rightarrow>
          (case map_of (store st) oldestKey of
             None \<Rightarrow> st
           | Some en \<Rightarrow>
               (let st1 = disposeEntry cfg oldestKey en ''lru'' st;
                    st2 = st1\<lparr>store := AList.delete oldestKey (store st1)\<rparr>
                in emit ''evict'' oldestKey (e_v en) ''lru'' st2)))"

text \<open>
  The loop of \<^verbatim>\<open>_cleanup\<close> over the entries still to visit; \<open>limit = None\<close> is the default
  \<^verbatim>\<open>Infinity\<close>. Deleting the visited entry leaves the entries after it in place, so the
  loop runs over the list the map held when the sweep began.
\<close>

fun cleanup_loop ::
  "opts \<Rightarrow> int \<Rightarrow> int option \<Rightarrow> ('k \<times> 'v entry) list \<Rightarrow> int \<Rightarrow> ('k, 'v, 'x) cache
     \<Rightarrow> int \<times> ('k, 'v, 'x) cache" where
  "cleanup_loop cfg now limit [] cleaned st = (cleaned, st)"
| "cleanup_loop cfg now limit ((key, en) # rest) cleaned st =
     (if e_e en \<noteq> 0 \<and> e_e en < now then
        (let st1 = disposeEntry cfg key en ''expire'' st;
             st2 = st1\<lparr>store := AList.delete key (store st1)\<rparr>;
             st3 = emit ''expire'' key (e_v en) ''ttl'' st2;
             cleaned' = cleaned + 1
         in if (case limit of None \<Rightarrow> False | Some l \<Rightarrow> cleaned' \<ge> l) then (cleaned', st3)
            else cleanup_loop cfg now limit rest cleaned' st3)
      else cleanup_loop cfg now limit rest cleaned st)"

definition cleanup ::
  "opts \<Rightarrow> int \<Rightarrow> int option \<Rightarrow> ('k, 'v, 'x) cache \<Rightarrow> int \<times> ('k, 'v, 'x) cache" where
  "cleanup cfg now limit st = cleanup_loop cfg now limit (store st) 0 st"

text \<open>
  The entries a sweep removes, in the order it removes them: the expired entries of the
  list it visits, cut off where the \<open>limit\<close> stops the loop. (\<open>cleaned\<close> is the count the
  loop starts from.)
\<close>

definition swept :: "int \<Rightarrow> int option \<Rightarrow> int \<Rightarrow> ('k \<times> 'v entry) list \<Rightarrow> ('k \<times> 'v entry) list" where
  "swept now limit cleaned xs =
     (let dead = filter (\<lambda>p. e_e (snd p) \<noteq> 0 \<and> e_e (snd p) < now) xs
      in case limit of None \<Rightarrow> dead | Some l \<Rightarrow> take (nat (max 1 (l - cleaned))) dead)"

section \<open>Core API\<close>

text \<open>\<^verbatim>\<open>set(key, value, ttl = this.opts.defaultTTL)\<close>: \<open>ttl = None\<close> is the omitted argument.\<close>

definition set_entry :: "opts \<Rightarrow> int \<Rightarrow> 'v jsval \<Rightarrow> int option \<Rightarrow> 'v entry" where
  "set_entry cfg now val ttl =
     (let ttl' = (case ttl of None \<Rightarrow> defaultTTL cfg | Some x \<Rightarrow> x);
          exp = (if ttl' > 0 then now + ttl' else 0);
          cloned = (if useClone cfg then clone val else val)
      in \<lparr>e_v = cloned, e_e = exp, e_t = now, e_a = 0\<rparr>)"

definition set_c ::
  "opts \<Rightarrow> int \<Rightarrow> 'k \<Rightarrow> 'v jsval \<Rightarrow> int option \<Rightarrow> ('k, 'v, 'x) cache \<Rightarrow> ('k, 'v, 'x) cache" where
  "set_c cfg now key val ttl st =
     (let en = set_entry cfg now val ttl
      in if map_of (store st) key \<noteq> None
         then st\<lparr>store := AList.update key en (store st)\<rparr>
         else (let st1 = st\<lparr>store := AList.update key en (store st)\<rparr>
               in if maxSize cfg > 0 \<and> int (length (store st1)) > maxSize cfg
                  then evictLRU cfg st1 else st1))"

definition get ::
  "opts \<Rightarrow> int \<Rightarrow> 'k \<Rightarrow> bool \<Rightarrow> ('k, 'v, 'x) cache \<Rightarrow> 'v jsval \<times> ('k, 'v, 'x) cache" where
  "get cfg now key tch st =
     (case map_of (store st) key of
        None \<Rightarrow> (Undefined, st)
      | Some en \<Rightarrow>
          (let expired = (e_e en \<noteq> 0 \<and> e_e en < now);
               touched = (if tch then st\<lparr>store := AList.update key (touch now en) (store st)\<rparr>
                          else st)
           in if expired then
                (if allowStale cfg then (e_v en, touched)
                 else if staleWhileRevalidate cfg > 0 \<and> now - e_e en < staleWhileRevalidate cfg
                 then (e_v en, touched)
                 else (Undefined, st))
              else (e_v en, touched)))"

definition peek :: "opts \<Rightarrow> int \<Rightarrow> 'k \<Rightarrow> ('k, 'v, 'x) cache \<Rightarrow> 'v jsval \<times> ('k, 'v, 'x) cache" where
  "peek cfg now key st = get cfg now key False st"

text \<open>\<^verbatim>\<open>has\<close> of nano-cache.ts: the last line is \<^verbatim>\<open>return this.opts.allowStale\<close>.\<close>

definition has_ts :: "opts \<Rightarrow> int \<Rightarrow> 'k \<Rightarrow> ('k, 'v, 'x) cache \<Rightarrow> bool" where
  "has_ts cfg now key st =
     (case map_of (store st) key of
        None \<Rightarrow> False
      | Some en \<Rightarrow> if e_e en = 0 \<or> e_e en \<ge> now then True else allowStale cfg)"

text \<open>\<^verbatim>\<open>has\<close> of nano-cache.js: the last line is \<^verbatim>\<open>return !this.opts.allowStale\<close>.\<close>

definition has_js :: "opts \<Rightarrow> int \<Rightarrow> 'k \<Rightarrow> ('k, 'v, 'x) cache \<Rightarrow> bool" where
  "has_js cfg now key st =
     (case map_of (store st) key of
        None \<Rightarrow> False
      | Some en \<Rightarrow> if e_e en = 0 \<or> e_e en \<ge> now then True else \<not> allowStale cfg)"

definition del :: "opts \<Rightarrow> 'k \<Rightarrow> ('k, 'v, 'x) cache \<Rightarrow> ('k, 'v, 'x) cache" where
  "del cfg key st =
     (case map_of (store st) key of
        None \<Rightarrow> st
      | Some en \<Rightarrow>
          (let st1 = disposeEntry cfg key en ''delete'' st
           in st1\<lparr>store := AList.delete key (store st1)\<rparr>))"

definition clear :: "opts \<Rightarrow> ('k, 'v, 'x) cache \<Rightarrow> ('k, 'v, 'x) cache" where
  "clear cfg st =
     (foldl (\<lambda>s (k, en). disposeEntry cfg k en ''clear'' s) st (store st))\<lparr>store := []\<rparr>"

text \<open>
  \<^verbatim>\<open>ttl(key, newTTL)\<close>: \<open>newTTL = None\<close> is the getter. The result is \<^verbatim>\<open>null\<close>, the cache
  itself, \<^verbatim>\<open>Infinity\<close> or a number.
\<close>

datatype ttl_result = TtlNull | TtlThis | TtlInfinity | TtlNumber int

definition ttl_c ::
  "int \<Rightarrow> 'k \<Rightarrow> int option \<Rightarrow> ('k, 'v, 'x) cache \<Rightarrow> ttl_result \<times> ('k, 'v, 'x) cache" where
  "ttl_c now key newTTL st =
     (case map_of (store st) key of
        None \<Rightarrow> (TtlNull, st)
      | Some en \<Rightarrow>
          (case newTTL of
             Some n \<Rightarrow>
               (TtlThis, st\<lparr>store := AList.update key
                                 (en\<lparr>e_e := (if n > 0 then now + n else 0)\<rparr>) (store st)\<rparr>)
           | None \<Rightarrow>
               if e_e en = 0 then (TtlInfinity, st)
               else (let remaining = e_e en - now
                     in (TtlNumber (if remaining > 0 then remaining else 0), st))))"

section \<open>Async helpers\<close>

text \<open>
  \<^verbatim>\<open>getOrSet(key, loader, ttl = this.opts.defaultTTL)\<close>, up to the point where it returns;
  \<open>ld\<close> is what the loader does if it is called. When no value is readable and nothing is
  in flight for the key, the loader is invoked first (its key is appended to \<open>loads\<close>). If
  it throws, the exception leaves \<^verbatim>\<open>getOrSet\<close> before \<^verbatim>\<open>this._pending.set\<close>: nothing is
  registered and the caller's promise is rejected. If it returns a promise, the handlers
  are attached and the promise is registered in \<open>pending\<close>. (In nano-cache.js \<^verbatim>\<open>_pending\<close>
  is created on first use; an absent registry reads as the empty one.)
\<close>

definition getOrSet ::
  "opts \<Rightarrow> int \<Rightarrow> 'k \<Rightarrow> 'x loader \<Rightarrow> int option \<Rightarrow> ('k, 'v, 'x) cache
     \<Rightarrow> ('v, 'x) handle \<times> ('k, 'v, 'x) cache" where
  "getOrSet cfg now key ld ttl st =
     (let ttl' = (case ttl of None \<Rightarrow> defaultTTL cfg | Some x \<Rightarrow> x);
          existing = fst (get cfg now key True st);
          st1 = snd (get cfg now key True st)
      in if existing \<noteq> Undefined then (Ready existing, st1)
         else (case map_of (pending st1) key of
                 Some p \<Rightarrow> (Awaiting p, st1)
               | None \<Rightarrow>
                   (case ld of
                      Throws err \<Rightarrow> (Failed err, st1\<lparr>loads := loads st1 @ [key]\<rparr>)
                    | Returns \<Rightarrow>
                        (let p = length (calls st1)
                         in (Awaiting p,
                             st1\<lparr>loads := loads st1 @ [key],
                                 calls := calls st1 @ [(key, ttl')],
                                 pending := AList.update key p (pending st1)\<rparr>)))))"

text \<open>
  The fulfilment handler of the in-flight promise \<open>p\<close>, run when its loader resolves with
  \<open>val\<close>. A promise settles once: a settled or unknown \<open>p\<close> is left alone.
\<close>

definition loader_resolved ::
  "opts \<Rightarrow> int \<Rightarrow> nat \<Rightarrow> 'v jsval \<Rightarrow> ('k, 'v, 'x) cache \<Rightarrow> ('k, 'v, 'x) cache" where
  "loader_resolved cfg now p val st =
     (if p < length (calls st) \<and> map_of (settled st) p = None then
        (let key = fst (calls st ! p);
             ttl' = snd (calls st ! p);
             st1 = set_c cfg now key val (Some ttl') st;
             st2 = st1\<lparr>pending := AList.delete key (pending st1)\<rparr>
         in st2\<lparr>settled := AList.update p (Fulfilled val) (settled st2)\<rparr>)
      else st)"

text \<open>
  The rejection handler of nano-cache.ts, after \<^verbatim>\<open>this._pending.delete(key)\<close>: it reads
  the raw entry of the key.
\<close>

definition onRejected_ts ::
  "opts \<Rightarrow> int \<Rightarrow> 'k \<Rightarrow> 'x \<Rightarrow> ('k, 'v, 'x) cache \<Rightarrow> ('v, 'x) outcome" where
  "onRejected_ts cfg now key err st =
     (if staleIfError cfg > 0 then
        (case map_of (store st) key of
           None \<Rightarrow> Rejected err
         | Some oldEntry \<Rightarrow>
             if e_v oldEntry \<noteq> Undefined \<and> now - e_e oldEntry < staleIfError cfg
             then Fulfilled (e_v oldEntry) else Rejected err)
      else Rejected err)"

text \<open>
  The rejection handler of nano-cache.js: it reads the key with \<^verbatim>\<open>peek\<close>, and takes the
  expiry as \<^verbatim>\<open>this._map.get(key)?.e || 0\<close>.
\<close>

definition onRejected_js ::
  "opts \<Rightarrow> int \<Rightarrow> 'k \<Rightarrow> 'x \<Rightarrow> ('k, 'v, 'x) cache \<Rightarrow> ('v, 'x) outcome" where
  "onRejected_js cfg now key err st =
     (if staleIfError cfg > 0 then
        (let old = fst (peek cfg now key st);
             e = (case map_of (store st) key of None \<Rightarrow> 0 | Some en \<Rightarrow> e_e en)
         in if old \<noteq> Undefined \<and> now - e < staleIfError cfg
            then Fulfilled old else Rejected err)
      else Rejected err)"

definition loader_rejected_ts ::
  "opts \<Rightarrow> int \<Rightarrow> nat \<Rightarrow> 'x \<Rightarrow> ('k, 'v, 'x) cache \<Rightarrow> ('k, 'v, 'x) cache" where
  "loader_rejected_ts cfg now p err st =
     (if p < length (calls st) \<and> map_of (settled st) p = None then
        (let key = fst (calls st ! p);
             st1 = st\<lparr>pending := AList.delete key (pending st)\<rparr>
         in st1\<lparr>settled := AList.update p (onRejected_ts cfg now key err st1) (settled st1)\<rparr>)
      else st)"

definition loader_rejected_js ::
  "opts \<Rightarrow> int \<Rightarrow> nat \<Rightarrow> 'x \<Rightarrow> ('k, 'v, 'x) cache \<Rightarrow> ('k, 'v, 'x) cache" where
  "loader_rejected_js cfg now p err st =
     (if p < length (calls st) \<and> map_of (settled st) p = None then
        (let key = fst (calls st ! p);
             st1 = st\<lparr>pending := AList.delete key (pending st)\<rparr>
         in st1\<lparr>settled := AList.update p (onRejected_js cfg now key err st1) (settled st1)\<rparr>)
      else st)"

text \<open>What a caller holding the handle has received so far: \<open>None\<close> while it still waits.\<close>

definition observe ::
  "('k, 'v, 'x) cache \<Rightarrow> ('v, 'x) handle \<Rightarrow> ('v, 'x) outcome option" where
  "observe st h =
     (case h of
        Ready val \<Rightarrow> Some (Fulfilled val)
      | Awaiting p \<Rightarrow> map_of (settled st) p
      | Failed err \<Rightarrow> Some (Rejected err))"

text \<open>
  A burst of \<^verbatim>\<open>getOrSet\<close> calls on one key, each with its own time, loader and ttl
  argument.
\<close>

fun getOrSet_all ::
  "opts \<Rightarrow> 'k \<Rightarrow> (int \<times> 'x loader \<times> int option) list \<Rightarrow> ('k, 'v, 'x) cache
     \<Rightarrow> ('v, 'x) handle list \<times> ('k, 'v, 'x) cache" where
  "getOrSet_all cfg key [] st = ([], st)"
| "getOrSet_all cfg key ((now, ld, ttl) # cs) st =
     (let r = getOrSet cfg now key ld ttl st;
          rs = getOrSet_all cfg key cs (snd r)
      in (fst r # fst rs, snd rs))"

definition dispose :: "opts \<Rightarrow> ('k, 'v, 'x) cache \<Rightarrow> ('k, 'v, 'x) cache" where
  "dispose cfg st = (clear cfg st)\<lparr>events := [], pending := []\<rparr>"

section \<open>Reachable states\<close>

text \<open>
  The states of a cache built with options \<open>cfg\<close>: every public method, the reaper tick and
  the settling of an in-flight promise is one step. The batch helpers \<^verbatim>\<open>mget\<close>,
  \<^verbatim>\<open>mset\<close>, \<^verbatim>\<open>mdel\<close> are loops of \<open>get\<close>, \<open>set_c\<close>, \<open>del\<close> steps, and \<^verbatim>\<open>wrap\<close> is a
  \<open>getOrSet\<close> step.
\<close>

inductive reachable :: "opts \<Rightarrow> ('k, 'v, 'x) cache \<Rightarrow> bool" for cfg :: opts where
  r_new: "reachable cfg new"
| r_set: "reachable cfg st \<Longrightarrow> reachable cfg (set_c cfg now key val ttl st)"
| r_get: "reachable cfg st \<Longrightarrow> reachable cfg (snd (get cfg now key tch st))"
| r_del: "reachable cfg st \<Longrightarrow> reachable cfg (del cfg key st)"
| r_clear: "reachable cfg st \<Longrightarrow> reachable cfg (clear cfg st)"
| r_ttl: "reachable cfg st \<Longrightarrow> reachable cfg (snd (ttl_c now key newTTL st))"
| r_cleanup: "reachable cfg st \<Longrightarrow> reachable cfg (snd (cleanup cfg now limit st))"
| r_getOrSet: "reachable cfg st \<Longrightarrow> reachable cfg (snd (getOrSet cfg now key ld ttl st))"
| r_resolved: "reachable cfg st \<Longrightarrow> reachable cfg (loader_resolved cfg now p val st)"
| r_rejected_ts: "reachable cfg st \<Longrightarrow> reachable cfg (loader_rejected_ts cfg now p err st)"
| r_rejected_js: "reachable cfg st \<Longrightarrow> reachable cfg (loader_rejected_js cfg now p err st)"
| r_on: "reachable cfg st \<Longrightarrow> reachable cfg (on event cb st)"
| r_off: "reachable cfg st \<Longrightarrow> reachable cfg (off event cb st)"
| r_dispose: "reachable cfg st \<Longrightarrow> reachable cfg (dispose cfg st)"

section \<open>Concrete caches for the worked examples\<close>

definition c4_st :: "(string, nat, string) cache" where
  "c4_st = snd (get DEFAULTS 2 ''k'' True (set_c DEFAULTS 1 ''k'' (Defined 7) None new))"

definition c8_st :: "(string, nat, string) cache" where
  "c8_st = set_c DEFAULTS 0 ''k'' (Defined 7) (Some 50) new"

definition c2_cfg :: opts where
  "c2_cfg = DEFAULTS\<lparr>staleWhileRevalidate := 200\<rparr>"

definition c2_st :: "(string, nat, string) cache" where
  "c2_st = set_c c2_cfg 0 ''k'' (Defined 7) (Some 50) new"


definition c10_cfg :: opts where
  "c10_cfg = DEFAULTS\<lparr>disposeValue := True\<rparr>"

definition c10_st :: "(string, nat, string) cache" where
  "c10_st = set_c c10_cfg 0 ''b'' (Defined 2) None
              (set_c c10_cfg 0 ''a'' (Defined 1) (Some 50) (on ''expire'' 0 new))"

text \<open>
  Two keys written and the first one read, all within the millisecond 1793000000000 (some
  time in 2026), in a cache of capacity 2.
\<close>

definition c6_cfg :: opts where
  "c6_cfg = DEFAULTS\<lparr>maxSize := 2\<rparr>"

definition c6_st :: "(string, nat, string) cache" where
  "c6_st = snd (get c6_cfg 1793000000000 ''a'' True
             (set_c c6_cfg 1793000000000 ''b'' (Defined 2) None
               (set_c c6_cfg 1793000000000 ''a'' (Defined 1) None new)))"







section \<open>Basic facts: the store under each method\<close>

lemma store_disposeEntry [simp]: "store (disposeEntry cfg k en r st) = store st"
  by (simp add: disposeEntry_def)
lemma store_emit [simp]: "store (emit ev k v r st) = store st"
  by (simp add: emit_def)

lemma evict_scan_mem:
  "evict_scan xs ok ot = Some k \<Longrightarrow> ok = Some k \<or> k \<in> fst ` set xs"
  by (induction xs ok ot rule: evict_scan.induct) (auto split: if_splits)

lemma store_evictLRU:
  "store (evictLRU cfg st) = store st \<or> (\<exists>k. store (evictLRU cfg st) = AList.delete k (store st))"
  by (auto simp: evictLRU_def Let_def split: option.splits)



lemma store_get:
  "store (snd (get cfg now key tch st)) = store st \<or>
   (\<exists>en. map_of (store st) key = Some en \<and>
      store (snd (get cfg now key tch st)) = AList.update key (touch now en) (store st))"
  by (auto simp: get_def Let_def split: option.splits)


lemma store_clear [simp]: "store (clear cfg st) = []"
  by (simp add: clear_def)


lemma map_of_set_c_present:
  assumes "map_of (store st) key = Some old"
  shows "set_c cfg now key val ttl st = st\<lparr>store := AList.update key (set_entry cfg now val ttl) (store st)\<rparr>"
  using assms by (simp add: set_c_def Let_def)

lemma get_value:
  "fst (get cfg now key tch st) =
     (case map_of (store st) key of
        None \<Rightarrow> Undefined
      | Some en \<Rightarrow>
          if e_e en \<noteq> 0 \<and> e_e en < now \<and> \<not> allowStale cfg
             \<and> \<not> (staleWhileRevalidate cfg > 0 \<and> now - e_e en < staleWhileRevalidate cfg)
          then Undefined else e_v en)"
  by (simp add: get_def Let_def split: option.splits)

lemma map_of_evictLRU:
  "map_of (store (evictLRU cfg st)) key = Some en \<Longrightarrow> map_of (store st) key = Some en"
  using store_evictLRU [of cfg st] by (auto simp: delete_conv' split: if_splits)

lemma map_of_set_c_key:
  assumes "map_of (store (set_c cfg now key val ttl st)) key = Some en"
  shows "en = set_entry cfg now val ttl"
proof -
  have "map_of (store (st\<lparr>store := AList.update key (set_entry cfg now val ttl) (store st)\<rparr>)) key = Some en"
    using assms by (auto simp: set_c_def Let_def split: if_splits dest: map_of_evictLRU)
  then show ?thesis by (simp add: update_conv')
qed

lemma swept_Nil [simp]: "swept now limit c [] = []"
  by (simp add: swept_def split: option.splits)

lemma swept_Cons_live:
  "\<not> (e_e en \<noteq> 0 \<and> e_e en < now) \<Longrightarrow> swept now limit c ((k, en) # rest) = swept now limit c rest"
  by (auto simp: swept_def)

lemma swept_Cons_dead:
  assumes d: "e_e en \<noteq> 0 \<and> e_e en < now"
  shows "swept now limit c ((k, en) # rest) =
     (k, en) # (if (case limit of None \<Rightarrow> False | Some l \<Rightarrow> c + 1 \<ge> l) then []
                else swept now limit (c + 1) rest)"
proof (cases limit)
  case None then show ?thesis using d by (simp add: swept_def)
next
  case (Some l)
  show ?thesis
  proof (cases "c + 1 \<ge> l")
    case True
    then have "nat (max 1 (l - c)) = Suc 0" by (auto simp: max_def)
    then show ?thesis using d True Some by (simp add: swept_def)
  next
    case False
    then have "nat (max 1 (l - c)) = Suc (nat (max 1 (l - (c + 1))))" by (auto simp: max_def)
    then show ?thesis using d False Some by (simp add: swept_def)
  qed
qed

lemma events_disposeEntry [simp]: "events (disposeEntry cfg k en r st) = events st"
  by (simp add: disposeEntry_def)
lemma events_emit [simp]: "events (emit ev k v r st) = events st"
  by (simp add: emit_def)
lemma trace_emit:
  "trace (emit ev k v r st) =
     trace st @ map (\<lambda>cb. Callback cb k v r) (case map_of (events st) ev of None \<Rightarrow> [] | Some l \<Rightarrow> l)"
  by (simp add: emit_def)
lemma trace_disposeEntry:
  "trace (disposeEntry cfg k en r st) = trace st @ (if disposeValue cfg then [DisposeCall (e_v en) k r] else [])"
  by (simp add: disposeEntry_def)

lemma cleanup_loop_count:
  "fst (cleanup_loop cfg now limit xs c st) = c + int (length (swept now limit c xs))"
proof (induction xs arbitrary: c st)
  case Nil show ?case by simp
next
  case (Cons x xs)
  obtain k en where x: "x = (k, en)" by (cases x)
  show ?case
  proof (cases "e_e en \<noteq> 0 \<and> e_e en < now")
    case True
    then show ?thesis unfolding x by (simp add: swept_Cons_dead Cons.IH Let_def)
  next
    case False
    then have "cleanup_loop cfg now limit ((k, en) # xs) c st = cleanup_loop cfg now limit xs c st"
      by auto
    then show ?thesis unfolding x by (simp only: swept_Cons_live [OF False] Cons.IH)
  qed
qed

lemma cleanup_loop_store:
  "store (snd (cleanup_loop cfg now limit xs c st)) =
     fold (\<lambda>p. AList.delete (fst p)) (swept now limit c xs) (store st)"
proof (induction xs arbitrary: c st)
  case Nil show ?case by simp
next
  case (Cons x xs)
  obtain k en where x: "x = (k, en)" by (cases x)
  show ?case
  proof (cases "e_e en \<noteq> 0 \<and> e_e en < now")
    case True
    then show ?thesis unfolding x by (simp add: swept_Cons_dead Cons.IH Let_def)
  next
    case False
    then have "cleanup_loop cfg now limit ((k, en) # xs) c st = cleanup_loop cfg now limit xs c st"
      by auto
    then show ?thesis unfolding x by (simp only: swept_Cons_live [OF False] Cons.IH)
  qed
qed

lemma cleanup_loop_trace:
  "trace (snd (cleanup_loop cfg now limit xs c st)) =
     trace st @ concat (map (\<lambda>p.
        (if disposeValue cfg then [DisposeCall (e_v (snd p)) (fst p) ''expire''] else [])
        @ map (\<lambda>cb. Callback cb (fst p) (e_v (snd p)) ''ttl'')
            (case map_of (events st) ''expire'' of None \<Rightarrow> [] | Some l \<Rightarrow> l))
      (swept now limit c xs))"
proof (induction xs arbitrary: c st)
  case Nil show ?case by simp
next
  case (Cons x xs)
  obtain k en where x: "x = (k, en)" by (cases x)
  show ?case
  proof (cases "e_e en \<noteq> 0 \<and> e_e en < now")
    case True
    then show ?thesis unfolding x
      by (simp add: swept_Cons_dead Cons.IH Let_def trace_emit trace_disposeEntry)
  next
    case False
    then have "cleanup_loop cfg now limit ((k, en) # xs) c st = cleanup_loop cfg now limit xs c st"
      by auto
    then show ?thesis unfolding x by (simp only: swept_Cons_live [OF False] Cons.IH)
  qed
qed


lemma map_of_fold_delete:
  "map_of (fold (\<lambda>p. AList.delete (fst p)) R xs) key =
     (if key \<in> fst ` set R then None else map_of xs key)"
  by (induction R arbitrary: xs) (auto simp: delete_conv')


section \<open>Writing over a stored key\<close>

text \<open>
  C4 (amended). For a key already in the store, \<^verbatim>\<open>set\<close> puts a fresh entry in the place of
  the old one: the new value, the expiry computed from the ttl, \<open>lastTouch = now\<close> and
  \<open>accessCount = 0\<close>. The key keeps its position, no other key changes, and neither the
  disposal hook nor an observer is called (the trace is unchanged), so nothing is evicted.
\<close>

theorem set_replaces_entry:
  assumes "map_of (store st) key = Some old"
  shows "map_of (store (set_c cfg now key val ttl st)) key =
           Some \<lparr>e_v = val,
                 e_e = (let ttl' = (case ttl of None \<Rightarrow> defaultTTL cfg | Some x \<Rightarrow> x)
                        in if ttl' > 0 then now + ttl' else 0),
                 e_t = now, e_a = 0\<rparr>
         \<and> map fst (store (set_c cfg now key val ttl st)) = map fst (store st)
         \<and> (\<forall>k. k \<noteq> key \<longrightarrow> map_of (store (set_c cfg now key val ttl st)) k = map_of (store st) k)
         \<and> trace (set_c cfg now key val ttl st) = trace st"
proof -
  have k: "key \<in> fst ` set (store st)"
    using assms by (metis map_of_eq_None_iff option.distinct(1))
  show ?thesis
    using k by (simp add: map_of_set_c_present [OF assms] update_conv' set_entry_def clone_def Let_def
        update_keys)
qed

theorem set_replaces_entry_witness:
  "map_of (store (set_c DEFAULTS 3 ''k'' (Defined 8) None c4_st)) ''k''
       = Some \<lparr>e_v = Defined 8, e_e = 0, e_t = 3, e_a = 0\<rparr>
   \<and> map fst (store (set_c DEFAULTS 3 ''k'' (Defined 8) None c4_st)) = [''k'']
   \<and> trace (set_c DEFAULTS 3 ''k'' (Defined 8) None c4_st) = []"
proof -
  have h: "map_of (store c4_st) ''k'' = Some \<lparr>e_v = Defined 7, e_e = 0, e_t = 2, e_a = 1\<rparr>"
    by (simp add: c4_st_def set_c_def get_def new_def DEFAULTS_def set_entry_def touch_def Let_def)
  have s: "map fst (store c4_st) = [''k'']" "trace c4_st = []"
    by (simp_all add: c4_st_def set_c_def get_def new_def DEFAULTS_def set_entry_def touch_def Let_def)
  show ?thesis
    using set_replaces_entry [OF h, of DEFAULTS 3 "Defined 8" None] s
    by (simp add: DEFAULTS_def)
qed

text \<open>
  C4 as stated fails: after \<^verbatim>\<open>set('k', 7)\<close> at time 1 and one \<^verbatim>\<open>get('k')\<close> at time 2 the
  entry has \<open>accessCount = 1\<close>; \<^verbatim>\<open>set('k', 8)\<close> at time 3 leaves \<open>accessCount = 0\<close>.
\<close>

theorem set_resets_accessCount_counterexample:
  "map_of (store c4_st) ''k'' = Some \<lparr>e_v = Defined 7, e_e = 0, e_t = 2, e_a = 1\<rparr>
   \<and> map_of (store (set_c DEFAULTS 3 ''k'' (Defined 8) None c4_st)) ''k''
       = Some \<lparr>e_v = Defined 8, e_e = 0, e_t = 3, e_a = 0\<rparr>"
  by (simp add: c4_st_def set_c_def get_def new_def DEFAULTS_def set_entry_def touch_def Let_def)

section \<open>Remaining lifetime\<close>

text \<open>
  C8 (amended). \<^verbatim>\<open>ttl(key)\<close> changes nothing and returns \<^verbatim>\<open>null\<close> exactly when the key has
  no entry, \<^verbatim>\<open>Infinity\<close> when the entry never expires, the positive remaining lifetime
  \<open>expiresAt - now\<close> while the expiry lies ahead, and \<open>0\<close> once the expiry is reached or
  past, whether the entry is then dead or still served stale.
\<close>

theorem ttl_get_result:
  "ttl_c now key None st =
     ((case map_of (store st) key of
         None \<Rightarrow> TtlNull
       | Some en \<Rightarrow>
           if e_e en = 0 then TtlInfinity
           else if now < e_e en then TtlNumber (e_e en - now)
           else TtlNumber 0), st)"
  by (simp add: ttl_c_def Let_def split: option.splits)

theorem ttl_get_result_witness:
  "ttl_c 100 ''k'' None c8_st = (TtlNumber 0, c8_st) \<and> ttl_c 20 ''k'' None c8_st = (TtlNumber 30, c8_st)
   \<and> ttl_c 20 ''j'' None c8_st = (TtlNull, c8_st)"
  using ttl_get_result [of 100 "''k''" c8_st] ttl_get_result [of 20 "''k''" c8_st]
    ttl_get_result [of 20 "''j''" c8_st]
  by (simp add: c8_st_def set_c_def new_def DEFAULTS_def set_entry_def Let_def)

text \<open>
  C8 as stated fails on a dead entry: written at time 0 with ttl 50 under the default
  options, the key reads as not found at time 100, and \<^verbatim>\<open>ttl\<close> returns 0, not \<^verbatim>\<open>null\<close>.
\<close>

theorem ttl_dead_entry_counterexample:
  "fst (get DEFAULTS 100 ''k'' True c8_st) = Undefined
   \<and> has_ts DEFAULTS 100 ''k'' c8_st = False
   \<and> fst (ttl_c 100 ''k'' None c8_st) = TtlNumber 0
   \<and> fst (ttl_c 100 ''k'' None c8_st) \<noteq> TtlNull"
  by (simp add: c8_st_def set_c_def get_def has_ts_def ttl_c_def new_def DEFAULTS_def set_entry_def Let_def)

section \<open>Key existence\<close>

text \<open>
  C2 (amended). \<^verbatim>\<open>has\<close> of nano-cache.ts returns true exactly when the key has an entry
  that never expires, or whose expiry is not past, or that is expired while \<open>allowStale\<close> is
  set. The stale-while-revalidate window is not consulted. Whenever it returns true, a read
  at the same time serves the entry's value. \<^verbatim>\<open>has\<close> of nano-cache.js gives the same answer
  for an absent key and for an entry that is not expired.
\<close>

theorem has_result:
  "has_ts cfg now key st =
     (case map_of (store st) key of
        None \<Rightarrow> False
      | Some en \<Rightarrow> e_e en = 0 \<or> now \<le> e_e en \<or> allowStale cfg)
   \<and> (has_ts cfg now key st \<longrightarrow>
        (\<exists>en. map_of (store st) key = Some en \<and> fst (get cfg now key tch st) = e_v en))
   \<and> (map_of (store st) key = None \<longrightarrow> \<not> has_js cfg now key st)
   \<and> (\<forall>en. map_of (store st) key = Some en \<and> (e_e en = 0 \<or> now \<le> e_e en) \<longrightarrow>
        has_js cfg now key st)"
  by (auto simp: has_ts_def has_js_def get_value split: option.splits)

theorem has_result_witness:
  "has_ts c2_cfg 100 ''k'' c2_st = False \<and> has_ts c2_cfg 50 ''k'' c2_st = True
   \<and> has_ts (c2_cfg\<lparr>allowStale := True\<rparr>) 100 ''k'' c2_st = True
   \<and> has_ts c2_cfg 50 ''j'' c2_st = False"
  using has_result [of c2_cfg 100 "''k''" c2_st] has_result [of c2_cfg 50 "''k''" c2_st]
    has_result [of "c2_cfg\<lparr>allowStale := True\<rparr>" 100 "''k''" c2_st]
    has_result [of c2_cfg 50 "''j''" c2_st]
  by (simp add: c2_st_def c2_cfg_def set_c_def new_def DEFAULTS_def set_entry_def Let_def)

text \<open>
  C2 as stated fails. With \<open>staleWhileRevalidate = 200\<close> and an entry written at time 0 with
  ttl 50, a read at time 100 serves the value, yet \<^verbatim>\<open>has\<close> of nano-cache.ts is false there.
  Under the default options the same entry is dead at time 100, yet \<^verbatim>\<open>has\<close> of
  nano-cache.js is true there.
\<close>

theorem has_ignores_swr_counterexample:
  "fst (get c2_cfg 100 ''k'' True c2_st) = Defined 7
   \<and> has_ts c2_cfg 100 ''k'' c2_st = False
   \<and> fst (get DEFAULTS 100 ''k'' True c8_st) = Undefined
   \<and> has_js DEFAULTS 100 ''k'' c8_st = True"
  by (simp add: c2_st_def c2_cfg_def c8_st_def set_c_def get_def has_ts_def has_js_def new_def
      DEFAULTS_def set_entry_def Let_def)

section \<open>Entries that never expire\<close>



section \<open>Reasons reported by the reaper sweep\<close>

text \<open>
  C10. A sweep removes the entries \<open>swept now limit 0 (store st)\<close>, in that order. For each
  of them it calls the disposal hook (when one is configured) with reason \<^verbatim>\<open>'expire'\<close> and
  then every observer of the \<^verbatim>\<open>expire\<close> event with reason \<^verbatim>\<open>'ttl'\<close> in the payload; it
  makes no other call, and the two reasons differ.
\<close>

theorem cleanup_reasons:
  "store (snd (cleanup cfg now limit st)) =
     fold (\<lambda>p. AList.delete (fst p)) (swept now limit 0 (store st)) (store st)
   \<and> trace (snd (cleanup cfg now limit st)) =
     trace st @ concat (map (\<lambda>p.
        (if disposeValue cfg then [DisposeCall (e_v (snd p)) (fst p) ''expire''] else [])
        @ map (\<lambda>cb. Callback cb (fst p) (e_v (snd p)) ''ttl'')
            (case map_of (events st) ''expire'' of None \<Rightarrow> [] | Some l \<Rightarrow> l))
      (swept now limit 0 (store st)))
   \<and> fst (cleanup cfg now limit st) = int (length (swept now limit 0 (store st)))
   \<and> ''ttl'' \<noteq> ''expire''"
  by (simp add: cleanup_def cleanup_loop_store cleanup_loop_trace cleanup_loop_count)

lemma c10_st_eq:
  "c10_st = \<lparr>store = [(''a'', \<lparr>e_v = Defined 1, e_e = 50, e_t = 0, e_a = 0\<rparr>),
                       (''b'', \<lparr>e_v = Defined 2, e_e = 0, e_t = 0, e_a = 0\<rparr>)],
             events = [(''expire'', [0]), (''evict'', [])], pending = [], loads = [],
             calls = [], settled = [], trace = []\<rparr>"
  by (simp add: c10_st_def c10_cfg_def set_c_def on_def new_def DEFAULTS_def set_entry_def Let_def)

theorem cleanup_reasons_witness:
  "trace (snd (cleanup c10_cfg 100 None c10_st))
     = [DisposeCall (Defined 1) ''a'' ''expire'', Callback 0 ''a'' (Defined 1) ''ttl'']
   \<and> store (snd (cleanup c10_cfg 100 None c10_st))
     = [(''b'', \<lparr>e_v = Defined 2, e_e = 0, e_t = 0, e_a = 0\<rparr>)]
   \<and> fst (cleanup c10_cfg 100 None c10_st) = 1"
  using cleanup_reasons [of c10_cfg 100 None c10_st]
  by (simp add: c10_st_eq swept_def c10_cfg_def)

section \<open>Stale-while-revalidate\<close>

lemma cleanup_removes_expired:
  assumes m: "map_of (store st) key = Some en" and x: "e_e en \<noteq> 0" "e_e en < s"
  shows "map_of (store (snd (cleanup cfg s None st))) key = None"
proof -
  have "(key, en) \<in> set (store st)" using m by (rule map_of_SomeD)
  then have "(key, en) \<in> set (swept s None 0 (store st))" using x by (simp add: swept_def)
  then have "key \<in> fst ` set (swept s None 0 (store st))" by force
  then show ?thesis by (simp add: cleanup_def cleanup_loop_store map_of_fold_delete)
qed

text \<open>
  C3 (amended). With a stale-while-revalidate window \<open>w > 0\<close> and \<open>allowStale\<close> off, a
  write at time \<open>now0\<close> (a timestamp, so not negative) with ttl \<open>t > 0\<close> stores the value
  with expiry \<open>now0 + t\<close>. As long as that entry is in the store, it is read back as its
  value at every time before \<open>now0 + t + w\<close> and as not found from \<open>now0 + t + w\<close> on.
  A reaper sweep at any time after \<open>now0 + t\<close> removes the entry, whatever the window,
  and the key then reads as not found at every time.
\<close>

theorem swr_read_window:
  assumes w: "0 < staleWhileRevalidate cfg" and a: "\<not> allowStale cfg"
    and t: "0 < t" and n: "0 \<le> now0"
  shows "(\<forall>en. map_of (store (set_c cfg now0 key val (Some t) st)) key = Some en \<longrightarrow>
            e_v en = val \<and> e_e en = now0 + t)
       \<and> (\<forall>st' en. map_of (store st') key = Some en \<and> e_v en = val \<and> e_e en = now0 + t \<longrightarrow>
            (now < now0 + t + staleWhileRevalidate cfg \<longrightarrow>
               fst (get cfg now key tch (st' :: ('k, 'v, 'x) cache)) = val)
          \<and> (now0 + t + staleWhileRevalidate cfg \<le> now \<longrightarrow>
               fst (get cfg now key tch st') = Undefined)
          \<and> (now0 + t < s \<longrightarrow>
               (\<forall>now' tch'. fst (get cfg now' key tch' (snd (cleanup cfg s None st'))) = Undefined)))"
proof (intro conjI allI impI)
  fix en
  assume en: "map_of (store (set_c cfg now0 key val (Some t) st)) key = Some en"
  have "en = set_entry cfg now0 val (Some t)" by (rule map_of_set_c_key [OF en])
  then show "e_v en = val" and "e_e en = now0 + t"
    using t by (simp_all add: set_entry_def clone_def Let_def)
next
  fix st' :: "('k, 'v, 'x) cache" and en
  assume h: "map_of (store st') key = Some en \<and> e_v en = val \<and> e_e en = now0 + t"
  {
    assume "now < now0 + t + staleWhileRevalidate cfg"
    then show "fst (get cfg now key tch st') = val"
      using h w a t n by (auto simp: get_value)
  }
  {
    assume "now0 + t + staleWhileRevalidate cfg \<le> now"
    then show "fst (get cfg now key tch st') = Undefined"
      using h w a t n by (auto simp: get_value)
  }
  {
    fix now' tch'
    assume "now0 + t < s"
    then have "map_of (store (snd (cleanup cfg s None st'))) key = None"
      using h t n cleanup_removes_expired [of st' key en s cfg] by simp
    then show "fst (get cfg now' key tch' (snd (cleanup cfg s None st'))) = Undefined"
      by (simp add: get_value)
  }
qed

theorem swr_read_window_witness:
  "fst (get c2_cfg 0 ''k'' True c2_st) = Defined 7
   \<and> fst (get c2_cfg 100 ''k'' True c2_st) = Defined 7
   \<and> fst (get c2_cfg 249 ''k'' True c2_st) = Defined 7
   \<and> fst (get c2_cfg 250 ''k'' True c2_st) = Undefined
   \<and> fst (get c2_cfg 260 ''k'' True c2_st) = Undefined
   \<and> fst (get c2_cfg 100 ''k'' True (snd (cleanup c2_cfg 60 None c2_st))) = Undefined"
proof -
  have w: "0 < staleWhileRevalidate c2_cfg" and a: "\<not> allowStale c2_cfg"
    by (simp_all add: c2_cfg_def DEFAULTS_def)
  have m: "map_of (store c2_st) ''k'' = Some \<lparr>e_v = Defined 7, e_e = 50, e_t = 0, e_a = 0\<rparr>"
    by (simp add: c2_st_def c2_cfg_def set_c_def new_def DEFAULTS_def set_entry_def Let_def)
  have s: "staleWhileRevalidate c2_cfg = 200" by (simp add: c2_cfg_def)
  note th = swr_read_window [OF w a, where t = 50 and ?now0.0 = 0 and key = "''k''"
      and val = "Defined (7::nat)" and tch = True and st = "new :: (string, nat, string) cache",
      THEN conjunct2, rule_format, of c2_st "\<lparr>e_v = Defined 7, e_e = 50, e_t = 0, e_a = 0\<rparr>"]
  show ?thesis
    using th [where now = 0 and s = 0] th [where now = 100 and s = 0] th [where now = 249 and s = 0]
      th [where now = 250 and s = 0] th [where now = 260 and s = 0]
      th [where now = 0 and s = 60] m
    by (simp add: s)
qed

text \<open>
  C3 as stated fails once the reaper has run. With \<open>staleWhileRevalidate = 200\<close>, a key is
  written at time 0 with ttl 50; a sweep at time 60 removes it, and a read at time 100,
  well before \<open>50 + 200\<close>, finds nothing.
\<close>

theorem swr_reaped_counterexample:
  "map_of (store c2_st) ''k'' = Some \<lparr>e_v = Defined 7, e_e = 50, e_t = 0, e_a = 0\<rparr>
   \<and> staleWhileRevalidate c2_cfg = 200
   \<and> (100::int) < 50 + 200
   \<and> fst (get c2_cfg 100 ''k'' True (snd (cleanup c2_cfg 60 None c2_st))) = Undefined"
  by (simp add: c2_st_def c2_cfg_def set_c_def get_def cleanup_def disposeEntry_def emit_def
      new_def DEFAULTS_def set_entry_def Let_def)

section \<open>The eviction victim\<close>





text \<open>Rounding: integers below \<open>2^53\<close> are kept, and \<open>excess\<close> counts the bits above 53.\<close>

lemma excess_small: "n < 2 ^ 53 \<Longrightarrow> excess n = 0"
  by (subst excess.simps) simp

lemma excess_eq:
  "n < 2 ^ (53 + k) \<Longrightarrow> (0 < k \<longrightarrow> 2 ^ (52 + k) \<le> n) \<Longrightarrow> excess n = k"
proof (induction k arbitrary: n)
  case 0 then show ?case by (simp add: excess_small)
next
  case (Suc k)
  define m :: int where "m = 2 ^ (52 + k)"
  have m2: "(2::int) ^ (53 + k) = 2 * m" and m4: "(2::int) ^ (53 + Suc k) = 4 * m"
    and m1: "(2::int) ^ (52 + Suc k) = 2 * m"
    by (simp_all add: m_def power_add)
  have lo: "2 * m \<le> n" using Suc.prems(2) by (simp only: m1)
  have hi: "n < 4 * m" using Suc.prems(1) by (simp only: m4)
  have "(2::int) ^ 53 \<le> 2 ^ (53 + k)" by (rule power_increasing) simp_all
  then have "(2::int) ^ 53 \<le> 2 * m" by (simp only: m2)
  then have big: "\<not> n < 2 ^ 53" using lo by linarith
  have "n div 2 < 2 * m" using hi by linarith
  then have up: "n div 2 < 2 ^ (53 + k)" by (simp only: m2)
  have "m \<le> n div 2" using lo by linarith
  then have low: "0 < k \<longrightarrow> 2 ^ (52 + k) \<le> n div 2" by (simp only: m_def) simp
  have "excess (n div 2) = k" by (rule Suc.IH [OF up low])
  then show ?case using big by (subst excess.simps) simp
qed

lemma dbl_exact: "\<bar>x\<bar> < 2 ^ 53 \<Longrightarrow> dbl x = x"
proof -
  assume a: "\<bar>x\<bar> < 2 ^ 53"
  then have "excess \<bar>x\<bar> = 0" by (rule excess_small)
  then have "dbl x = sgn x * \<bar>x\<bar>" by (simp add: dbl_def Let_def)
  also have "\<dots> = x" by (rule mult_sgn_abs)
  finally show ?thesis .
qed

lemma dbl_2026:
  "dbl 1793000000000000000 = 1793000000000000000"
  "dbl 1792999999999999999 = 1793000000000000000"
proof -
  have e: "excess 1793000000000000000 = 8" "excess 1792999999999999999 = 8"
    by (rule excess_eq, simp, simp)+
  show "dbl 1793000000000000000 = 1793000000000000000"
    by (simp add: dbl_def e Let_def)
  show "dbl 1792999999999999999 = 1793000000000000000"
    by (simp add: dbl_def e Let_def)
qed

lemma c6_st_eq:
  "c6_st = \<lparr>store = [(''a'', \<lparr>e_v = Defined 1, e_e = 0, e_t = 1793000000000, e_a = 1\<rparr>),
                      (''b'', \<lparr>e_v = Defined 2, e_e = 0, e_t = 1793000000000, e_a = 0\<rparr>)],
            events = [(''expire'', []), (''evict'', [])], pending = [], loads = [], calls = [],
            settled = [], trace = []\<rparr>"
  by (simp add: c6_st_def c6_cfg_def set_c_def get_def touch_def new_def DEFAULTS_def set_entry_def Let_def)

text \<open>
  C6. The code at the failing input. In a cache of capacity 2, \<^verbatim>\<open>set('a', 1)\<close>,
  \<^verbatim>\<open>set('b', 2)\<close> and \<^verbatim>\<open>get('a')\<close> run within the millisecond 1793000000000: both
  entries have that \<open>lastTouch\<close>, \<open>a\<close> has one access and \<open>b\<close> has none. The product
  \<open>lastTouch * 1000000\<close> is above \<open>2^53\<close>, where doubles are 256 apart, so subtracting the
  access count changes nothing: both scores are 1793000000000000000. \<^verbatim>\<open>set('c', 3)\<close> in the
  same millisecond evicts \<open>a\<close>, the entry with more accesses, and keeps \<open>b\<close>. (Where the
  product stays below \<open>2^53\<close>, as at \<open>lastTouch = 1000\<close>, the subtraction is exact and gives
  the entry with more accesses the lower score.)
\<close>

theorem evictLRU_access_count_absorbed:
  "map_of (store c6_st) ''a'' = Some \<lparr>e_v = Defined 1, e_e = 0, e_t = 1793000000000, e_a = 1\<rparr>
   \<and> map_of (store c6_st) ''b'' = Some \<lparr>e_v = Defined 2, e_e = 0, e_t = 1793000000000, e_a = 0\<rparr>
   \<and> score \<lparr>e_v = Defined (1::nat), e_e = 0, e_t = 1793000000000, e_a = 1\<rparr> = 1793000000000000000
   \<and> score \<lparr>e_v = Defined (2::nat), e_e = 0, e_t = 1793000000000, e_a = 0\<rparr> = 1793000000000000000
   \<and> map fst (store (set_c c6_cfg 1793000000000 ''c'' (Defined 3) None c6_st)) = [''b'', ''c'']
   \<and> score \<lparr>e_v = Defined (1::nat), e_e = 0, e_t = 1000, e_a = 1\<rparr> = 999999999
   \<and> score \<lparr>e_v = Defined (2::nat), e_e = 0, e_t = 1000, e_a = 0\<rparr> = 1000000000"
  by (simp add: c6_st_eq set_c_def evictLRU_def score_def dbl_2026 dbl_exact disposeEntry_def
      emit_def c6_cfg_def DEFAULTS_def set_entry_def Let_def)

section \<open>The capacity bound\<close>























section \<open>Stale-if-error\<close>




lemma onRejected_pending [simp]:
  "onRejected_ts cfg now key err (st\<lparr>pending := x\<rparr>) = onRejected_ts cfg now key err st"
  "onRejected_js cfg now key err (st\<lparr>pending := x\<rparr>) = onRejected_js cfg now key err st"
  by (simp_all add: onRejected_ts_def onRejected_js_def peek_def get_value)




section \<open>Single flight\<close>

lemma get_frame [simp]:
  "pending (snd (get cfg now key tch st)) = pending st"
  "loads (snd (get cfg now key tch st)) = loads st"
  "calls (snd (get cfg now key tch st)) = calls st"
  "settled (snd (get cfg now key tch st)) = settled st"
  by (simp_all add: get_def Let_def split: option.splits)

lemma get_get_value:
  "fst (get cfg now' key tch' (snd (get cfg now key tch st))) = fst (get cfg now' key tch' st)"
  using store_get [of cfg now key tch st]
  by (auto simp: get_value update_conv' touch_def)

lemma frame_disposeEntry [simp]:
  "calls (disposeEntry cfg k en r st) = calls st"
  "settled (disposeEntry cfg k en r st) = settled st"
  by (simp_all add: disposeEntry_def)

lemma frame_emit [simp]:
  "calls (emit ev k v r st) = calls st"
  "settled (emit ev k v r st) = settled st"
  by (simp_all add: emit_def)

lemma frame_evictLRU [simp]:
  "calls (evictLRU cfg st) = calls st"
  "settled (evictLRU cfg st) = settled st"
  by (simp_all add: evictLRU_def Let_def split: option.splits)

lemma frame_set_c [simp]:
  "calls (set_c cfg now key val ttl st) = calls st"
  "settled (set_c cfg now key val ttl st) = settled st"
  by (simp_all add: set_c_def Let_def)

lemma frame_cleanup_loop:
  "calls (snd (cleanup_loop cfg now limit xs c st)) = calls st
   \<and> settled (snd (cleanup_loop cfg now limit xs c st)) = settled st"
  by (induction xs arbitrary: c st) (auto simp: Let_def)

lemma frame_clear_fold:
  "calls (foldl (\<lambda>s (k, en). disposeEntry cfg k en r s) st xs) = calls st
   \<and> settled (foldl (\<lambda>s (k, en). disposeEntry cfg k en r s) st xs) = settled st"
  by (induction xs arbitrary: st) (auto simp: split_def)

lemma frame_clear [simp]:
  "calls (clear cfg st) = calls st" "settled (clear cfg st) = settled st"
  by (simp_all add: clear_def frame_clear_fold)

lemma settle_frame:
  "calls (loader_resolved cfg now p val st) = calls st"
  "calls (loader_rejected_ts cfg now p err st) = calls st"
  "calls (loader_rejected_js cfg now p err st) = calls st"
  "fst ` set (settled (loader_resolved cfg now p val st))
     \<subseteq> {q. q < length (calls st)} \<union> fst ` set (settled st)"
  "fst ` set (settled (loader_rejected_ts cfg now p err st))
     \<subseteq> {q. q < length (calls st)} \<union> fst ` set (settled st)"
  "fst ` set (settled (loader_rejected_js cfg now p err st))
     \<subseteq> {q. q < length (calls st)} \<union> fst ` set (settled st)"
  by (simp_all add: loader_resolved_def loader_rejected_ts_def loader_rejected_js_def Let_def
      dom_update)

text \<open>Only an invoked loader's promise settles.\<close>

lemma reachable_settled:
  "reachable cfg st \<Longrightarrow> \<forall>p \<in> fst ` set (settled st). p < length (calls st)"
proof (induction rule: reachable.induct)
  case r_new show ?case by (simp add: new_def)
next
  case (r_set st now key val ttl) then show ?case by simp
next
  case (r_get st now key tch) then show ?case by simp
next
  case (r_del st key) then show ?case by (simp add: del_def Let_def split: option.splits)
next
  case (r_clear st) then show ?case by simp
next
  case (r_ttl st now key newTTL) then show ?case by (simp add: ttl_c_def Let_def split: option.splits)
next
  case (r_cleanup st now limit) then show ?case by (simp add: cleanup_def frame_cleanup_loop)
next
  case (r_getOrSet st now key ld ttl)
  then show ?case
    by (auto simp: getOrSet_def Let_def less_Suc_eq split: option.splits loader.splits)
next
  case (r_resolved st now p val)
  then show ?case using settle_frame(4) [of cfg now p val st] by (simp only: settle_frame(1)) blast
next
  case (r_rejected_ts st now p err)
  then show ?case using settle_frame(5) [of cfg now p err st] by (simp only: settle_frame(2)) blast
next
  case (r_rejected_js st now p err)
  then show ?case using settle_frame(6) [of cfg now p err st] by (simp only: settle_frame(3)) blast
next
  case (r_on st event cb) then show ?case by (simp add: on_def split: option.splits)
next
  case (r_off st event cb) then show ?case by (simp add: off_def split: option.splits)
next
  case (r_dispose st) then show ?case by (simp add: dispose_def)
qed

text \<open>A call that finds nothing readable while a promise is registered joins that promise.\<close>

lemma getOrSet_join:
  assumes "map_of (pending st) key = Some p" and "fst (get cfg now key True st) = Undefined"
  shows "getOrSet cfg now key ld ttl st = (Awaiting p, snd (get cfg now key True st))"
  using assms by (simp add: getOrSet_def Let_def)

text \<open>
  A call that finds nothing readable and nothing registered invokes the loader; a loader
  that returns a promise gets it registered.
\<close>

lemma getOrSet_start:
  assumes "map_of (pending st) key = None" and "fst (get cfg now key True st) = Undefined"
  shows "getOrSet cfg now key Returns ttl st =
           (Awaiting (length (calls st)),
            (snd (get cfg now key True st))
              \<lparr>loads := loads st @ [key],
               calls := calls st @ [(key, case ttl of None \<Rightarrow> defaultTTL cfg | Some x \<Rightarrow> x)],
               pending := AList.update key (length (calls st)) (pending st)\<rparr>)"
  using assms by (simp add: getOrSet_def Let_def)

lemma get_value_frame [simp]:
  "fst (get cfg now key tch (st\<lparr>loads := l, calls := c, pending := q\<rparr>))
     = fst (get cfg now key tch st)"
  by (simp add: get_value)

lemma burst_joins:
  "map_of (pending st) key = Some p \<Longrightarrow>
   \<forall>c\<in>set cs. fst (get cfg (fst c) key True st) = Undefined \<Longrightarrow>
   fst (getOrSet_all cfg key cs st) = replicate (length cs) (Awaiting p)
       \<and> loads (snd (getOrSet_all cfg key cs st)) = loads st
       \<and> calls (snd (getOrSet_all cfg key cs st)) = calls st
       \<and> settled (snd (getOrSet_all cfg key cs st)) = settled st
       \<and> map_of (pending (snd (getOrSet_all cfg key cs st))) key = Some p
       \<and> (\<forall>now tch. fst (get cfg now key tch (snd (getOrSet_all cfg key cs st)))
             = fst (get cfg now key tch st))"
proof (induction cs arbitrary: st)
  case Nil then show ?case by simp
next
  case (Cons c cs)
  obtain now ld ttl where c: "c = (now, ld, ttl)" by (cases c)
  let ?st1 = "snd (get cfg now key True st)"
  have miss: "fst (get cfg now key True st) = Undefined" using Cons.prems(2) by (simp add: c)
  have g: "getOrSet cfg now key ld ttl st = (Awaiting p, ?st1)"
    by (rule getOrSet_join [OF Cons.prems(1) miss])
  have p1: "map_of (pending ?st1) key = Some p" using Cons.prems(1) by simp
  have m1: "\<forall>c\<in>set cs. fst (get cfg (fst c) key True ?st1) = Undefined"
    using Cons.prems(2) by (simp add: get_get_value)
  note ih = Cons.IH [OF p1 m1]
  show ?case using ih by (simp add: c g get_get_value)
qed

text \<open>
  C1 (amended). Take a reachable cache with nothing in flight for \<open>key\<close>, and a burst of
  one or more \<^verbatim>\<open>getOrSet\<close> calls on \<open>key\<close>, none of which finds a value to read, where
  the loader of the first call returns a promise. The burst invokes a loader exactly once
  (one key is added to \<open>loads\<close>, one promise to \<open>calls\<close>), and every call returns the
  same promise \<open>p\<close>, still unsettled. When the loader resolves with \<open>val\<close>, every caller
  receives \<open>val\<close>; when it fails, every caller receives the one outcome of the rejection
  handler, the stale fallback or the failure.
\<close>

theorem single_flight:
  assumes r: "reachable cfg st"
    and nf: "map_of (pending st) key = None"
    and miss: "\<forall>c\<in>set ((now0, Returns, ttl0) # rest). fst (get cfg (fst c) key True st) = Undefined"
  shows "let hs = fst (getOrSet_all cfg key ((now0, Returns, ttl0) # rest) st);
             st' = snd (getOrSet_all cfg key ((now0, Returns, ttl0) # rest) st);
             p = length (calls st)
         in hs = replicate (Suc (length rest)) (Awaiting p)
          \<and> loads st' = loads st @ [key]
          \<and> calls st' = calls st @ [(key, case ttl0 of None \<Rightarrow> defaultTTL cfg | Some x \<Rightarrow> x)]
          \<and> map_of (pending st') key = Some p
          \<and> (\<forall>h\<in>set hs. observe st' h = None)
          \<and> (\<forall>h\<in>set hs. \<forall>now val.
                observe (loader_resolved cfg now p val st') h = Some (Fulfilled val))
          \<and> (\<forall>h\<in>set hs. \<forall>now err.
                observe (loader_rejected_ts cfg now p err st') h
                  = Some (onRejected_ts cfg now key err st'))
          \<and> (\<forall>h\<in>set hs. \<forall>now err.
                observe (loader_rejected_js cfg now p err st') h
                  = Some (onRejected_js cfg now key err st'))"
proof -
  let ?p = "length (calls st)"
  let ?t = "case ttl0 of None \<Rightarrow> defaultTTL cfg | Some x \<Rightarrow> x"
  let ?st1 = "(snd (get cfg now0 key True st))
                \<lparr>loads := loads st @ [key], calls := calls st @ [(key, ?t)],
                 pending := AList.update key ?p (pending st)\<rparr>"
  let ?st' = "snd (getOrSet_all cfg key rest ?st1)"
  have miss0: "fst (get cfg now0 key True st) = Undefined" using miss by simp
  have g: "getOrSet cfg now0 key Returns ttl0 st = (Awaiting ?p, ?st1)"
    by (rule getOrSet_start [OF nf miss0])
  have p1: "map_of (pending ?st1) key = Some ?p" by (simp add: update_conv')
  have m1: "\<forall>c\<in>set rest. fst (get cfg (fst c) key True ?st1) = Undefined"
    using miss by (simp add: get_get_value)
  note b = burst_joins [OF p1 m1]
  have all: "getOrSet_all cfg key ((now0, Returns, ttl0) # rest) st
               = (Awaiting ?p # fst (getOrSet_all cfg key rest ?st1), ?st')"
    by (simp add: g Let_def)
  have hs: "fst (getOrSet_all cfg key ((now0, Returns, ttl0) # rest) st)
              = replicate (Suc (length rest)) (Awaiting ?p)"
    unfolding all using b by simp
  have st': "snd (getOrSet_all cfg key ((now0, Returns, ttl0) # rest) st) = ?st'"
    unfolding all by simp
  have l: "loads ?st' = loads st @ [key]" using b by simp
  have c: "calls ?st' = calls st @ [(key, ?t)]" using b by simp
  have s: "settled ?st' = settled st" using b by simp
  have q: "map_of (pending ?st') key = Some ?p" using b by simp
  have "?p \<notin> fst ` set (settled st)" using reachable_settled [OF r] by auto
  then have u: "map_of (settled ?st') ?p = None" by (simp add: s map_of_eq_None_iff)
  have lt: "?p < length (calls ?st')" by (simp add: c)
  have k: "fst (calls ?st' ! ?p) = key" by (simp add: c)
  have o0: "observe ?st' (Awaiting ?p) = None" by (simp add: observe_def u)
  have o1: "observe (loader_resolved cfg now ?p val ?st') (Awaiting ?p) = Some (Fulfilled val)"
    for now val
    using lt u by (simp add: observe_def loader_resolved_def Let_def update_conv')
  have o2: "observe (loader_rejected_ts cfg now ?p err ?st') (Awaiting ?p)
              = Some (onRejected_ts cfg now key err ?st')" for now err
    using lt u k by (simp add: observe_def loader_rejected_ts_def Let_def update_conv')
  have o3: "observe (loader_rejected_js cfg now ?p err ?st') (Awaiting ?p)
              = Some (onRejected_js cfg now key err ?st')" for now err
    using lt u k by (simp add: observe_def loader_rejected_js_def Let_def update_conv')
  show ?thesis
    unfolding Let_def hs st' using l c q o0 o1 o2 o3 by simp
qed

theorem single_flight_witness:
  "fst (getOrSet_all DEFAULTS ''k'' [(1, Returns, None), (2, Returns, None), (3, Throws ''boom'', Some 5)]
        (new :: (string, nat, string) cache))
     = [Awaiting 0, Awaiting 0, Awaiting 0]
   \<and> loads (snd (getOrSet_all DEFAULTS ''k''
        [(1, Returns, None), (2, Returns, None), (3, Throws ''boom'', Some 5)]
        (new :: (string, nat, string) cache))) = [''k'']
   \<and> observe (loader_resolved DEFAULTS 9 0 (Defined 7)
        (snd (getOrSet_all DEFAULTS ''k''
           [(1, Returns, None), (2, Returns, None), (3, Throws ''boom'', Some 5)]
           (new :: (string, nat, string) cache)))) (Awaiting 0) = Some (Fulfilled (Defined 7))"
proof -
  have r: "reachable DEFAULTS (new :: (string, nat, string) cache)" by (rule r_new)
  have nf: "map_of (pending (new :: (string, nat, string) cache)) ''k'' = None"
    by (simp add: new_def)
  have miss: "\<forall>c\<in>set ((1, Returns, None) # [(2, Returns, None), (3, Throws ''boom'', Some 5)]).
      fst (get DEFAULTS (fst c) ''k'' True (new :: (string, nat, string) cache)) = Undefined"
    by (simp add: get_def new_def)
  have c0: "calls (new :: (string, nat, string) cache) = []"
    "loads (new :: (string, nat, string) cache) = []" by (simp_all add: new_def)
  show ?thesis
    using single_flight [OF r nf miss]
    by (simp del: getOrSet_all.simps add: Let_def c0 DEFAULTS_def)
qed

text \<open>
  C1 as stated fails for a loader that throws before it returns a promise: the exception
  leaves \<^verbatim>\<open>getOrSet\<close> before the in-flight marker is set, so two calls on the same key in
  an empty cache invoke the loader twice, and nothing is left in flight.
\<close>

theorem single_flight_sync_throw_counterexample:
  "fst (getOrSet_all DEFAULTS ''k'' [(1, Throws ''boom'', None), (1, Throws ''boom'', None)]
        (new :: (string, nat, string) cache))
     = [Failed ''boom'', Failed ''boom'']
   \<and> loads (snd (getOrSet_all DEFAULTS ''k'' [(1, Throws ''boom'', None), (1, Throws ''boom'', None)]
        (new :: (string, nat, string) cache))) = [''k'', ''k'']
   \<and> pending (snd (getOrSet_all DEFAULTS ''k'' [(1, Throws ''boom'', None), (1, Throws ''boom'', None)]
        (new :: (string, nat, string) cache))) = []"
  by (simp add: getOrSet_def get_def new_def DEFAULTS_def Let_def)

end
